theory Spec2Isabelle
  imports Complex_Main
begin

section \<open>The URL shortener of \<^verbatim>\<open>src/app/actions.ts\<close>\<close>

text \<open>
  The four server actions \<^verbatim>\<open>shortenUrl\<close>, \<^verbatim>\<open>lookupUrl\<close>, \<^verbatim>\<open>extendUrl\<close> and
  \<^verbatim>\<open>getUrls\<close> are embedded as functions that take the Redis store and return it
  updated. A thrown \<^verbatim>\<open>Error\<close> is the left summand of the result, paired with the
  store as the call left it. Instants are milliseconds since the epoch, which is what
  \<^verbatim>\<open>Date.getTime\<close> compares; the ISO strings of the stored record carry the same
  milliseconds, and \<^verbatim>\<open>JSON.parse\<close> gives back what \<^verbatim>\<open>JSON.stringify\<close> was given, so a
  stored value is kept as the record itself.
\<close>

subsection \<open>Data\<close>

record UrlMapping =
  shortUrl :: string
  longUrl :: string
  createdAt :: int
  expiresAt :: int
  clientId :: string

text \<open>
  The messages of the thrown errors, in the order of the source: "Client ID required",
  "Invalid URL", "URL not found or expired", "Unauthorized access to URL"; the last
  one is the store's refusal of a \<^verbatim>\<open>SET\<close> whose expire time is not positive.
\<close>

datatype error = ClientIdRequired | InvalidUrl | NotFoundOrExpired | Unauthorized | ReplyError

text \<open>A JavaScript number that is an integer, or what a division by zero leaves.\<close>

datatype jsnum = Num int | Infinity | NaN

subsection \<open>The store\<close>

text \<open>
  Redis holds string values, each with the instant at which its time to live ends, and
  sets. The keys \<^verbatim>\<open>url:<code>\<close> only ever hold strings and the keys
  \<^verbatim>\<open>user:<id>:urls\<close> only ever hold sets, and no key has both shapes, so the two kinds
  are two components. A set is the list that \<^verbatim>\<open>SMEMBERS\<close> answers with, free of
  duplicates; Redis promises no order, and no theorem below depends on one. A command
  carries the instant at which it runs: a value whose time to live has ended is not there.
\<close>

record redis =
  strs :: "string \<Rightarrow> (UrlMapping \<times> int) option"
  sets :: "string \<Rightarrow> string list"

definition redis_empty :: redis where
  "redis_empty = \<lparr>strs = (\<lambda>k. None), sets = (\<lambda>k. [])\<rparr>"

definition url_key :: "string \<Rightarrow> string" where
  "url_key shortCode = ''url:'' @ shortCode"

definition user_key :: "string \<Rightarrow> string" where
  "user_key client = ''user:'' @ client @ '':urls''"

definition redis_get :: "redis \<Rightarrow> int \<Rightarrow> string \<Rightarrow> UrlMapping option" where
  "redis_get r t k =
     (case strs r k of
        None \<Rightarrow> None
      | Some (v, deadline) \<Rightarrow> if t < deadline then Some v else None)"

definition redis_exists :: "redis \<Rightarrow> int \<Rightarrow> string \<Rightarrow> bool" where
  "redis_exists r t k = (redis_get r t k \<noteq> None)"

definition redis_set_ex :: "redis \<Rightarrow> int \<Rightarrow> string \<Rightarrow> UrlMapping \<Rightarrow> int \<Rightarrow> error + redis" where
  "redis_set_ex r t k v seconds =
     (if seconds \<le> 0 then Inl ReplyError
      else Inr (r\<lparr>strs := (strs r)(k := Some (v, t + seconds * 1000))\<rparr>))"

definition redis_del :: "redis \<Rightarrow> string \<Rightarrow> redis" where
  "redis_del r k = r\<lparr>strs := (strs r)(k := None)\<rparr>"

definition redis_sadd :: "redis \<Rightarrow> string \<Rightarrow> string \<Rightarrow> redis" where
  "redis_sadd r k x =
     r\<lparr>sets := (sets r)(k := (if x \<in> set (sets r k) then sets r k else sets r k @ [x]))\<rparr>"

definition redis_srem :: "redis \<Rightarrow> string \<Rightarrow> string \<Rightarrow> redis" where
  "redis_srem r k x = r\<lparr>sets := (sets r)(k := removeAll x (sets r k))\<rparr>"

definition redis_smembers :: "redis \<Rightarrow> string \<Rightarrow> string list" where
  "redis_smembers r k = sets r k"

subsection \<open>Arithmetic of the platform\<close>

text \<open>\<^verbatim>\<open>Math.ceil(a / b)\<close> on integers with \<open>b \<noteq> 0\<close>.\<close>

definition ceil_quot :: "int \<Rightarrow> int \<Rightarrow> int" where
  "ceil_quot a b = - ((- a) div b)"

text \<open>
  \<^verbatim>\<open>Math.ceil(n / b)\<close> for a length \<open>n\<close>: the quotient by zero is \<^verbatim>\<open>NaN\<close> for
  \<open>0 / 0\<close> and \<^verbatim>\<open>Infinity\<close> otherwise.
\<close>

definition math_ceil_div :: "nat \<Rightarrow> int \<Rightarrow> jsnum" where
  "math_ceil_div n b =
     (if b = 0 then (if n = 0 then NaN else Infinity) else Num (ceil_quot (int n) b))"

text \<open>\<^verbatim>\<open>Math.max(1, x)\<close>.\<close>

fun math_max1 :: "jsnum \<Rightarrow> jsnum" where
  "math_max1 (Num k) = Num (max 1 k)"
| "math_max1 Infinity = Infinity"
| "math_max1 NaN = NaN"

text \<open>
  \<^verbatim>\<open>Array.prototype.slice(start, end)\<close> on integers: a negative index counts from the
  end, both are clamped to the array, and an end before the start gives the empty array.
\<close>

definition js_slice :: "'a list \<Rightarrow> int \<Rightarrow> int \<Rightarrow> 'a list" where
  "js_slice xs start fin =
     (let len = int (length xs);
          k = (if start < 0 then max (len + start) 0 else min start len);
          e = (if fin < 0 then max (len + fin) 0 else min fin len)
      in take (nat (e - k)) (drop (nat k) xs))"

text \<open>\<^verbatim>\<open>String.prototype.charAt\<close>: the empty string out of range.\<close>

definition charAt :: "string \<Rightarrow> nat \<Rightarrow> string" where
  "charAt s i = (if i < length s then [s ! i] else [])"

text \<open>
  A value of type \<^verbatim>\<open>string | undefined\<close> in a condition: \<^verbatim>\<open>undefined\<close> and the
  empty string are false.
\<close>

fun truthy :: "string option \<Rightarrow> bool" where
  "truthy None = False"
| "truthy (Some s) = (s \<noteq> [])"

subsection \<open>Short codes\<close>

definition chars :: string where
  "chars = ''ABCDEFGHIJKLMNOPQRSTUVWXYZabcdefghijklmnopqrstuvwxyz0123456789''"

text \<open>
  \<open>rnd\<close> is the sequence of values that \<^verbatim>\<open>Math.floor(Math.random() * chars.length)\<close>
  takes, and \<open>i\<close> the number of values drawn so far; one code draws five.
\<close>

definition generateShortCode :: "(nat \<Rightarrow> nat) \<Rightarrow> nat \<Rightarrow> string" where
  "generateShortCode rnd i =
     foldl (\<lambda>result j. result @ charAt chars (rnd (i + j))) [] [0..<5]"

text \<open>
  The loop \<^verbatim>\<open>while (await redis.exists(`url:${shortCode}`)) shortCode = generateShortCode()\<close>.
  Every turn is one round trip to the store, at an instant of its own: \<open>clock k\<close> is
  the instant at which the store answers the \<open>k\<close>-th \<^verbatim>\<open>EXISTS\<close> of the call, counted
  from 0, and \<open>k\<close> the number of checks made so far. The loop has no bound, so it is a
  partial function: \<open>None\<close> is the loop that never ends.
\<close>

partial_function (option) retry ::
  "(nat \<Rightarrow> nat) \<Rightarrow> (nat \<Rightarrow> int) \<Rightarrow> redis \<Rightarrow> string \<Rightarrow> nat \<Rightarrow> nat \<Rightarrow> string option" where
  "retry rnd clock r shortCode i k =
     (if redis_exists r (clock k) (url_key shortCode)
      then retry rnd clock r (generateShortCode rnd i) (i + 5) (k + 1)
      else Some shortCode)"

subsection \<open>The four operations\<close>

text \<open>
  \<open>parses\<close> stands for \<^verbatim>\<open>new URL(longUrl)\<close> not throwing, \<open>clock\<close> gives the
  instants of the checks of the loop, \<open>now\<close> is the instant of \<^verbatim>\<open>new Date()\<close> after
  the loop and \<open>now2\<close> that of the later \<^verbatim>\<open>Date.now()\<close>, at which the record is
  written. The result is \<open>None\<close> when the call never returns. \<^verbatim>\<open>revalidatePath\<close>
  does not touch the store.
\<close>

definition shortenUrl ::
  "(string \<Rightarrow> bool) \<Rightarrow> (nat \<Rightarrow> nat) \<Rightarrow> (nat \<Rightarrow> int) \<Rightarrow> int \<Rightarrow> int \<Rightarrow> redis \<Rightarrow> string
     \<Rightarrow> string \<Rightarrow> ((error + string) \<times> redis) option" where
  "shortenUrl parses rnd clock now now2 r url client =
     (if client = [] then Some (Inl ClientIdRequired, r)
      else if \<not> parses url then Some (Inl InvalidUrl, r)
      else
        case retry rnd clock r (generateShortCode rnd 0) 5 0 of
          None \<Rightarrow> None
        | Some shortCode \<Rightarrow>
            let created = now;
                expires = created + 48 * 60 * 60 * 1000;
                mapping = \<lparr>shortUrl = shortCode, longUrl = url, createdAt = created,
                           expiresAt = expires, clientId = client\<rparr>
            in (case redis_set_ex r now2 (url_key shortCode) mapping
                       (ceil_quot (expires - now2) 1000) of
                  Inl e \<Rightarrow> Some (Inl e, r)
                | Inr r1 \<Rightarrow> Some (Inr shortCode, redis_sadd r1 (user_key client) shortCode)))"

definition lookupUrl ::
  "redis \<Rightarrow> int \<Rightarrow> string \<Rightarrow> string option \<Rightarrow> (error + UrlMapping) \<times> redis" where
  "lookupUrl r now shortCode client =
     (case redis_get r now (url_key shortCode) of
        None \<Rightarrow> (Inl NotFoundOrExpired, r)
      | Some mapping \<Rightarrow>
          if truthy client \<and> Some (clientId mapping) \<noteq> client then (Inl Unauthorized, r)
          else if expiresAt mapping \<le> now then
            let r1 = redis_del r (url_key shortCode) in
            (Inl NotFoundOrExpired,
             case client of
               None \<Rightarrow> r1
             | Some c \<Rightarrow> if c \<noteq> [] then redis_srem r1 (user_key c) shortCode else r1)
          else (Inr mapping, r))"

definition extendUrl ::
  "redis \<Rightarrow> int \<Rightarrow> string \<Rightarrow> string \<Rightarrow> (error + bool) \<times> redis" where
  "extendUrl r now shortCode client =
     (if client = [] then (Inl ClientIdRequired, r)
      else
        case redis_get r now (url_key shortCode) of
          None \<Rightarrow> (Inl NotFoundOrExpired, r)
        | Some mapping \<Rightarrow>
            if clientId mapping \<noteq> client then (Inl Unauthorized, r)
            else if expiresAt mapping \<le> now then
              (Inl NotFoundOrExpired,
               redis_srem (redis_del r (url_key shortCode)) (user_key client) shortCode)
            else
              let newExpiresAt = expiresAt mapping + 48 * 60 * 60 * 1000;
                  mapping' = mapping\<lparr>expiresAt := newExpiresAt\<rparr>
              in (case redis_set_ex r now (url_key shortCode) mapping'
                         (ceil_quot (newExpiresAt - now) 1000) of
                    Inl e \<Rightarrow> (Inl e, r)
                  | Inr r1 \<Rightarrow> (Inr True, r1)))"

text \<open>
  The \<^verbatim>\<open>for\<close> loop of \<^verbatim>\<open>getUrls\<close> over the codes of the index: the records kept so
  far and the store. A code with no record is passed over.
\<close>

fun collect :: "int \<Rightarrow> string \<Rightarrow> string list \<Rightarrow> UrlMapping list \<Rightarrow> redis \<Rightarrow> UrlMapping list \<times> redis" where
  "collect now client [] mappings r = (mappings, r)"
| "collect now client (shortCode # rest) mappings r =
     (case redis_get r now (url_key shortCode) of
        None \<Rightarrow> collect now client rest mappings r
      | Some mapping \<Rightarrow>
          if now < expiresAt mapping \<and> clientId mapping = client
          then collect now client rest (mappings @ [mapping]) r
          else collect now client rest mappings
                 (redis_srem (redis_del r (url_key shortCode)) (user_key client) shortCode))"

text \<open>
  The comparator \<^verbatim>\<open>(a, b) => b.createdAt - a.createdAt\<close> of a stable sort: newest
  first, equal instants in the order of the scan.
\<close>

definition newest_first :: "UrlMapping list \<Rightarrow> UrlMapping list" where
  "newest_first ms = sort_key (\<lambda>m. - createdAt m) ms"

definition getUrls ::
  "redis \<Rightarrow> int \<Rightarrow> int \<Rightarrow> int \<Rightarrow> string \<Rightarrow> (error + UrlMapping list \<times> jsnum) \<times> redis" where
  "getUrls r now page pageSize client =
     (if client = [] then (Inl ClientIdRequired, r)
      else
        let shortCodes = redis_smembers r (user_key client);
            (mappings, r1) = collect now client shortCodes [] r;
            sorted = newest_first mappings;
            totalPages = math_ceil_div (length sorted) pageSize;
            startIndex = (page - 1) * pageSize;
            paginatedUrls = js_slice sorted startIndex (startIndex + pageSize)
        in (Inr (paginatedUrls, math_max1 totalPages), r1))"

subsection \<open>Sequences of operations\<close>

text \<open>
  The stores that sequences of the four operations build from the empty store, with any
  arguments, any random values and any instants.
\<close>

inductive reachable :: "redis \<Rightarrow> bool" where
  start: "reachable redis_empty"
| create: "reachable r \<Longrightarrow> shortenUrl parses rnd clock now now2 r url client = Some (res, r')
           \<Longrightarrow> reachable r'"
| resolve: "reachable r \<Longrightarrow> lookupUrl r now shortCode owner = (res1, r') \<Longrightarrow> reachable r'"
| renew: "reachable r \<Longrightarrow> extendUrl r now shortCode client = (res2, r') \<Longrightarrow> reachable r'"
| list: "reachable r \<Longrightarrow> getUrls r now page pageSize client = (res3, r') \<Longrightarrow> reachable r'"

text \<open>
  The invariant behind the uniqueness of codes: every record sits under the key of its
  own \<open>shortUrl\<close>.
\<close>

definition keyed :: "redis \<Rightarrow> bool" where
  "keyed r = (\<forall>k m d. strs r k = Some (m, d) \<longrightarrow> k = url_key (shortUrl m))"

text \<open>
  The invariant behind the end of the loop: every value was written with a time to
  live, so no value of the store outlives the instant \<open>D\<close>.
\<close>

definition deadline_bound :: "redis \<Rightarrow> int \<Rightarrow> bool" where
  "deadline_bound r D = (\<forall>k m d. strs r k = Some (m, d) \<longrightarrow> d \<le> D)"

subsection \<open>An example run\<close>

text \<open>
  The record and the store that \<^verbatim>\<open>shortenUrl("https://example.com/a", "owner1")\<close> leaves
  on the empty store when the random values are 0, 1, 2, 3, 4, the clock reads 0 at the
  check of the loop and at \<^verbatim>\<open>new Date()\<close>, and 500 at \<^verbatim>\<open>Date.now()\<close>: the time to
  live is 172800 seconds from the instant 500.
\<close>

definition example_mapping :: UrlMapping where
  "example_mapping =
     \<lparr>shortUrl = ''ABCDE'', longUrl = ''https://example.com/a'', createdAt = 0,
      expiresAt = 172800000, clientId = ''owner1''\<rparr>"

definition example_store :: redis where
  "example_store =
     \<lparr>strs = (\<lambda>k. None)(''url:ABCDE'' := Some (example_mapping, 172800500)),
      sets = (\<lambda>k. [])(''user:owner1:urls'' := [''ABCDE''])\<rparr>"

text \<open>An acceptance test for \<^verbatim>\<open>new URL\<close> that the examples use.\<close>

definition example_parses :: "string \<Rightarrow> bool" where
  "example_parses url = (take 8 url = ''https://'')"

text \<open>
  Random values that spell the code \<^verbatim>\<open>ABCDE\<close> eleven times over and the code
  \<^verbatim>\<open>FGHIJ\<close> from then on.
\<close>

definition colliding_rnd :: "nat \<Rightarrow> nat" where
  "colliding_rnd i = (if i < 55 then i mod 5 else 5 + i mod 5)"

section \<open>Properties\<close>

subsection \<open>Auxiliary facts\<close>

lemma generateShortCode_unfold:
  "generateShortCode rnd i =
     charAt chars (rnd i) @ charAt chars (rnd (i + 1)) @ charAt chars (rnd (i + 2)) @
     charAt chars (rnd (i + 3)) @ charAt chars (rnd (i + 4))"
proof -
  have "[0..<5] = [0, 1, 2, 3, 4::nat]"
    by (simp add: upt_rec)
  then show ?thesis
    by (simp add: generateShortCode_def)
qed

lemma url_key_inject [simp]: "(url_key a = url_key b) = (a = b)"
  by (simp add: url_key_def)

lemma user_key_inject [simp]: "(user_key a = user_key b) = (a = b)"
  by (simp add: user_key_def)

lemma retry_free:
  "\<not> redis_exists r (clock k) (url_key sc) \<Longrightarrow> retry rnd clock r sc i k = Some sc"
  by (subst retry.simps) simp

lemma retry_taken:
  "redis_exists r (clock k) (url_key sc) \<Longrightarrow>
   retry rnd clock r sc i k = retry rnd clock r (generateShortCode rnd i) (i + 5) (k + 1)"
  by (subst retry.simps) simp

lemma redis_get_del [simp]:
  "redis_get (redis_del r k) t k' = (if k' = k then None else redis_get r t k')"
  by (simp add: redis_get_def redis_del_def)

lemma redis_get_srem [simp]: "redis_get (redis_srem r k x) t k' = redis_get r t k'"
  by (simp add: redis_get_def redis_srem_def)

lemma redis_get_sadd [simp]: "redis_get (redis_sadd r k x) t k' = redis_get r t k'"
  by (simp add: redis_get_def redis_sadd_def)

lemma retry_finds:
  "\<not> redis_exists r (clock (k + n)) (url_key (generateShortCode rnd (i + 5 * n))) \<Longrightarrow>
   \<exists>j\<le>n. retry rnd clock r (generateShortCode rnd i) (i + 5) k =
           Some (generateShortCode rnd (i + 5 * j))"
proof (induction n arbitrary: i k)
  case 0
  then show ?case by (simp add: retry_free)
next
  case (Suc n)
  show ?case
  proof (cases "redis_exists r (clock k) (url_key (generateShortCode rnd i))")
    case False
    then have "retry rnd clock r (generateShortCode rnd i) (i + 5) k =
                 Some (generateShortCode rnd (i + 5 * 0))"
      by (simp add: retry_free)
    then show ?thesis by blast
  next
    case True
    from Suc.prems
    have "\<not> redis_exists r (clock ((k + 1) + n)) (url_key (generateShortCode rnd ((i + 5) + 5 * n)))"
      by (simp add: add.assoc add.commute)
    from Suc.IH [OF this] obtain j where j: "j \<le> n"
      "retry rnd clock r (generateShortCode rnd (i + 5)) (i + 5 + 5) (k + 1) =
         Some (generateShortCode rnd (i + 5 + 5 * j))"
      by blast
    have "retry rnd clock r (generateShortCode rnd i) (i + 5) k =
            Some (generateShortCode rnd (i + 5 * Suc j))"
      using True j(2) by (simp add: retry_taken add.assoc)
    with j(1) show ?thesis by (metis Suc_le_mono)
  qed
qed

lemma retry_first:
  "\<not> redis_exists r (clock (k + n)) (url_key (generateShortCode rnd (i + 5 * n))) \<Longrightarrow>
   (\<And>j. j < n \<Longrightarrow> redis_exists r (clock (k + j)) (url_key (generateShortCode rnd (i + 5 * j)))) \<Longrightarrow>
   retry rnd clock r (generateShortCode rnd i) (i + 5) k = Some (generateShortCode rnd (i + 5 * n))"
proof (induction n arbitrary: i k)
  case 0
  then show ?case by (simp add: retry_free)
next
  case (Suc n)
  have here: "redis_exists r (clock k) (url_key (generateShortCode rnd i))"
    using Suc.prems(2) [of 0] by simp
  have free: "\<not> redis_exists r (clock ((k + 1) + n))
                 (url_key (generateShortCode rnd ((i + 5) + 5 * n)))"
    using Suc.prems(1) by (simp add: add.assoc add.commute)
  have taken: "redis_exists r (clock ((k + 1) + j))
                 (url_key (generateShortCode rnd ((i + 5) + 5 * j)))" if "j < n" for j
    using Suc.prems(2) [of "Suc j"] that by (simp add: add.assoc add.commute)
  have "retry rnd clock r (generateShortCode rnd (i + 5)) (i + 5 + 5) (k + 1) =
          Some (generateShortCode rnd (i + 5 + 5 * n))"
    using Suc.IH [OF free taken] by simp
  then show ?case
    using here by (simp add: retry_taken add.assoc)
qed

lemma retry_Some:
  assumes "retry rnd clock r sc i k = Some y"
  shows "(y = sc \<and> \<not> redis_exists r (clock k) (url_key y))
         \<or> (\<exists>j. y = generateShortCode rnd (i + 5 * j)
                \<and> \<not> redis_exists r (clock (k + Suc j)) (url_key y))"
proof (rule retry.raw_induct
    [where P = "\<lambda>rnd clock r sc i k y.
                  (y = sc \<and> \<not> redis_exists r (clock k) (url_key y))
                  \<or> (\<exists>j. y = generateShortCode rnd (i + 5 * j)
                         \<and> \<not> redis_exists r (clock (k + Suc j)) (url_key y))", OF _ assms])
  fix retry' :: "(nat \<Rightarrow> nat) \<Rightarrow> (nat \<Rightarrow> int) \<Rightarrow> redis \<Rightarrow> string \<Rightarrow> nat \<Rightarrow> nat \<Rightarrow> string option"
  fix rnd clock r sc i k y
  assume IH: "\<And>rnd clock r sc i k y. retry' rnd clock r sc i k = Some y \<Longrightarrow>
           (y = sc \<and> \<not> redis_exists r (clock k) (url_key y))
           \<or> (\<exists>j. y = generateShortCode rnd (i + 5 * j)
                  \<and> \<not> redis_exists r (clock (k + Suc j)) (url_key y))"
    and step: "(if redis_exists r (clock k) (url_key sc)
                then retry' rnd clock r (generateShortCode rnd i) (i + 5) (k + 1)
                else Some sc) = Some y"
  show "(y = sc \<and> \<not> redis_exists r (clock k) (url_key y))
        \<or> (\<exists>j. y = generateShortCode rnd (i + 5 * j)
               \<and> \<not> redis_exists r (clock (k + Suc j)) (url_key y))"
  proof (cases "redis_exists r (clock k) (url_key sc)")
    case False
    with step show ?thesis by auto
  next
    case True
    with step have "retry' rnd clock r (generateShortCode rnd i) (i + 5) (k + 1) = Some y"
      by simp
    from IH [OF this]
    have "\<exists>j. y = generateShortCode rnd (i + 5 * j)
             \<and> \<not> redis_exists r (clock (k + Suc j)) (url_key y)"
    proof
      assume "y = generateShortCode rnd i \<and> \<not> redis_exists r (clock (k + 1)) (url_key y)"
      then have "y = generateShortCode rnd (i + 5 * 0)
                 \<and> \<not> redis_exists r (clock (k + Suc 0)) (url_key y)"
        by auto
      then show ?thesis by blast
    next
      assume "\<exists>j. y = generateShortCode rnd (i + 5 + 5 * j)
                 \<and> \<not> redis_exists r (clock (k + 1 + Suc j)) (url_key y)"
      then obtain j where "y = generateShortCode rnd (i + 5 + 5 * j)"
        and "\<not> redis_exists r (clock (k + 1 + Suc j)) (url_key y)"
        by blast
      then have "y = generateShortCode rnd (i + 5 * Suc j)
                 \<and> \<not> redis_exists r (clock (k + Suc (Suc j))) (url_key y)"
        by (auto simp: add.assoc)
      then show ?thesis by blast
    qed
    then show ?thesis by blast
  qed
qed

lemma retry_start_Some:
  assumes "retry rnd clock r (generateShortCode rnd 0) 5 0 = Some y"
  shows "\<exists>n. y = generateShortCode rnd (5 * n) \<and> \<not> redis_exists r (clock n) (url_key y)"
  using retry_Some [OF assms]
proof
  assume "y = generateShortCode rnd 0 \<and> \<not> redis_exists r (clock 0) (url_key y)"
  then have "y = generateShortCode rnd (5 * 0) \<and> \<not> redis_exists r (clock 0) (url_key y)"
    by auto
  then show ?thesis by blast
next
  assume "\<exists>j. y = generateShortCode rnd (5 + 5 * j)
             \<and> \<not> redis_exists r (clock (0 + Suc j)) (url_key y)"
  then obtain j where "y = generateShortCode rnd (5 + 5 * j)"
    and "\<not> redis_exists r (clock (0 + Suc j)) (url_key y)"
    by blast
  then have "y = generateShortCode rnd (5 * Suc j) \<and> \<not> redis_exists r (clock (Suc j)) (url_key y)"
    by auto
  then show ?thesis by blast
qed

lemma redis_exists_later:
  "\<not> redis_exists r t k \<Longrightarrow> t \<le> t' \<Longrightarrow> \<not> redis_exists r t' k"
  by (auto simp: redis_exists_def redis_get_def split: option.splits if_splits)

lemma example_get:
  "redis_get example_store t (url_key ''ABCDE'') = (if t < 172800500 then Some example_mapping else None)"
  by (simp add: redis_get_def example_store_def url_key_def)

lemma ceil_quot_pos: "0 < a \<Longrightarrow> 0 < ceil_quot a 1000"
  unfolding ceil_quot_def by (simp add: div_neg_pos_less0)

lemma ceil_quot_bounds: "a \<le> ceil_quot a 1000 * 1000 \<and> ceil_quot a 1000 * 1000 < a + 1000"
proof -
  have "(- a) div 1000 * 1000 + (- a) mod 1000 = - a"
    by simp
  moreover have "0 \<le> (- a) mod 1000" and "(- a) mod 1000 < 1000"
    by simp_all
  ultimately show ?thesis
    unfolding ceil_quot_def by linarith
qed

lemma ceil_quot_ge: "a \<le> ceil_quot a 1000 * 1000"
  using ceil_quot_bounds [of a] by simp

lemma ceil_quot_ceiling: "ceil_quot a b = \<lceil>real_of_int a / real_of_int b\<rceil>"
  unfolding ceil_quot_def by (simp add: ceiling_divide_eq_div)

lemma shortenUrl_created:
  assumes "client \<noteq> []" and "parses url"
    and "retry rnd clock r (generateShortCode rnd 0) 5 0 = Some c"
    and "now2 < now + 172800000"
  shows "shortenUrl parses rnd clock now now2 r url client =
           Some (Inr c,
             redis_sadd
               (r\<lparr>strs := (strs r)(url_key c :=
                    Some (\<lparr>shortUrl = c, longUrl = url, createdAt = now,
                            expiresAt = now + 172800000, clientId = client\<rparr>,
                          now2 + ceil_quot (now + 172800000 - now2) 1000 * 1000))\<rparr>)
               (user_key client) c)"
proof -
  have "0 < ceil_quot (now + 172800000 - now2) 1000"
    using assms(4) by (intro ceil_quot_pos) simp
  then show ?thesis
    using assms(1-3) by (simp add: shortenUrl_def redis_set_ex_def Let_def)
qed

lemma example_code: "generateShortCode (\<lambda>n. n) 0 = ''ABCDE''"
  by (simp add: generateShortCode_unfold charAt_def chars_def)

lemma example_create:
  "shortenUrl example_parses (\<lambda>n. n) (\<lambda>k. 0) 0 500 redis_empty ''https://example.com/a''
     ''owner1'' =
     Some (Inr ''ABCDE'', example_store)"
proof -
  have free: "\<not> redis_exists redis_empty 0 (url_key ''ABCDE'')"
    by (simp add: redis_exists_def redis_get_def redis_empty_def)
  have "retry (\<lambda>n. n) (\<lambda>k. 0) redis_empty (generateShortCode (\<lambda>n. n) 0) 5 0 = Some ''ABCDE''"
    using free by (simp add: example_code retry_free)
  from shortenUrl_created [OF _ _ this, of "''owner1''" example_parses "''https://example.com/a''" 500]
  show ?thesis
    by (simp add: example_parses_def example_store_def example_mapping_def redis_sadd_def
        redis_empty_def url_key_def user_key_def ceil_quot_def)
qed

lemma extendUrl_live:
  assumes "redis_get r now (url_key shortCode) = Some m"
    and "clientId m = client" and "client \<noteq> []" and "now < expiresAt m"
  shows "extendUrl r now shortCode client =
           (Inr True,
            r\<lparr>strs := (strs r)(url_key shortCode :=
                 Some (m\<lparr>expiresAt := expiresAt m + 172800000\<rparr>,
                       now + ceil_quot (expiresAt m + 172800000 - now) 1000 * 1000))\<rparr>)"
proof -
  have "0 < ceil_quot (expiresAt m + 172800000 - now) 1000"
    using assms(4) by (intro ceil_quot_pos) simp
  then show ?thesis
    using assms by (simp add: extendUrl_def redis_set_ex_def Let_def)
qed

lemma redis_get_set:
  "t < d \<Longrightarrow> redis_get (r\<lparr>strs := (strs r)(k := Some (m, d))\<rparr>) t k = Some m"
  by (simp add: redis_get_def)

lemma shortenUrl_Inr:
  assumes "shortenUrl parses rnd clock now now2 r url client = Some (Inr c, r0)"
  shows "client \<noteq> [] \<and> retry rnd clock r (generateShortCode rnd 0) 5 0 = Some c
         \<and> r0 = redis_sadd
               (r\<lparr>strs := (strs r)(url_key c :=
                    Some (\<lparr>shortUrl = c, longUrl = url, createdAt = now,
                            expiresAt = now + 172800000, clientId = client\<rparr>,
                          now2 + ceil_quot (now + 172800000 - now2) 1000 * 1000))\<rparr>)
               (user_key client) c"
  using assms
  by (auto simp: shortenUrl_def Let_def redis_set_ex_def split: if_splits option.splits)

lemma redis_get_fresh:
  assumes "t < e"
  shows "redis_get (r\<lparr>strs := (strs r)(k := Some (m, now + ceil_quot (e - now) 1000 * 1000))\<rparr>) t k
           = Some m"
proof -
  have "e - now \<le> ceil_quot (e - now) 1000 * 1000"
    by (rule ceil_quot_ge)
  with assms have "t < now + ceil_quot (e - now) 1000 * 1000"
    by simp
  then show ?thesis
    by (rule redis_get_set)
qed

lemma js_slice_page:
  assumes "0 \<le> start" and "0 \<le> n"
  shows "js_slice xs start (start + n) = take (nat n) (drop (nat start) xs)"
proof (cases "start \<le> int (length xs)")
  case True
  have "nat (min (start + n) (int (length xs)) - start) = min (nat n) (length xs - nat start)"
    using assms True by (simp add: min_def) linarith
  moreover have "take (min (nat n) (length xs - nat start)) (drop (nat start) xs)
                   = take (nat n) (drop (nat start) xs)"
    by (simp add: min_def)
  ultimately show ?thesis
    using assms True by (simp add: js_slice_def Let_def min_absorb1)
next
  case False
  then have "drop (nat start) xs = []"
    by simp
  then show ?thesis
    using assms False by (simp add: js_slice_def Let_def min_def)
qed

lemma ceil_quot_mult_ge:
  assumes "0 < b"
  shows "a \<le> ceil_quot a b * b"
proof -
  define q where "q = (- a) div b * b"
  have "q + (- a) mod b = - a"
    unfolding q_def by simp
  moreover have "0 \<le> (- a) mod b"
    using assms by simp
  ultimately have "a \<le> - q"
    by linarith
  then show ?thesis
    unfolding ceil_quot_def q_def by simp
qed

lemma past_last_page:
  assumes "1 \<le> pageSize" and "max 1 (ceil_quot (int n) pageSize) < page"
  shows "n \<le> nat ((page - 1) * pageSize)"
proof -
  have "ceil_quot (int n) pageSize \<le> page - 1"
    using assms(2) by simp
  then have "ceil_quot (int n) pageSize * pageSize \<le> (page - 1) * pageSize"
    using assms(1) by (intro mult_right_mono) simp_all
  moreover have "int n \<le> ceil_quot (int n) pageSize * pageSize"
    using assms(1) by (intro ceil_quot_mult_ge) simp
  ultimately show ?thesis
    by linarith
qed

lemma example_members: "redis_smembers example_store (user_key ''owner1'') = [''ABCDE'']"
  by (simp add: redis_smembers_def example_store_def user_key_def)

lemma example_pruned:
  "redis_srem (redis_del example_store (url_key ''ABCDE'')) (user_key ''owner1'') ''ABCDE'' =
     redis_empty"
  by (simp add: example_store_def redis_del_def redis_srem_def redis_empty_def url_key_def
      user_key_def fun_eq_iff)

lemma example_fields:
  "clientId example_mapping = ''owner1''" "expiresAt example_mapping = 172800000"
  "createdAt example_mapping = 0" "shortUrl example_mapping = ''ABCDE''"
  by (simp_all add: example_mapping_def)

lemma example_collect:
  "collect t ''owner1'' (redis_smembers example_store (user_key ''owner1'')) [] example_store =
     (if t < 172800000 then ([example_mapping], example_store)
      else if t < 172800500 then ([], redis_empty)
      else ([], example_store))"
  by (simp add: example_members example_get example_fields example_pruned)

lemma example_getUrls:
  "getUrls example_store t page 10 ''owner1'' =
     (if t < 172800000
      then (Inr (js_slice [example_mapping] ((page - 1) * 10) ((page - 1) * 10 + 10), Num 1),
            example_store)
      else if t < 172800500 then (Inr ([], Num 1), redis_empty)
      else (Inr ([], Num 1), example_store))"
  by (simp add: getUrls_def example_collect newest_first_def math_ceil_div_def ceil_quot_def
      js_slice_def)

lemma keyed_empty: "keyed redis_empty"
  by (simp add: keyed_def redis_empty_def)

lemma keyed_del: "keyed r \<Longrightarrow> keyed (redis_del r k)"
  by (simp add: keyed_def redis_del_def)

lemma keyed_srem: "keyed r \<Longrightarrow> keyed (redis_srem r k x)"
  by (simp add: keyed_def redis_srem_def)

lemma keyed_sadd: "keyed r \<Longrightarrow> keyed (redis_sadd r k x)"
  by (simp add: keyed_def redis_sadd_def)

lemma keyed_set:
  "keyed r \<Longrightarrow> shortUrl m = c \<Longrightarrow> keyed (r\<lparr>strs := (strs r)(url_key c := Some (m, d))\<rparr>)"
  by (simp add: keyed_def)

lemma keyed_get: "keyed r \<Longrightarrow> redis_get r t k = Some m \<Longrightarrow> k = url_key (shortUrl m)"
  by (auto simp: keyed_def redis_get_def split: option.splits if_splits)

lemma keyed_collect: "keyed r \<Longrightarrow> keyed (snd (collect now client codes acc r))"
  by (induction codes arbitrary: acc r) (auto simp: keyed_del keyed_srem split: option.splits)

lemma keyed_shortenUrl:
  assumes "keyed r" and "shortenUrl parses rnd clock now now2 r url client = Some (res, r')"
  shows "keyed r'"
  using assms
  by (auto simp: shortenUrl_def Let_def redis_set_ex_def keyed_sadd keyed_set
      split: if_splits option.splits)

lemma keyed_lookupUrl:
  assumes "keyed r" and "lookupUrl r now shortCode owner = (res, r')"
  shows "keyed r'"
  using assms
  by (auto simp: lookupUrl_def Let_def keyed_del keyed_srem split: if_splits option.splits)

lemma keyed_extendUrl:
  assumes "keyed r" and "extendUrl r now shortCode client = (res, r')"
  shows "keyed r'"
proof (cases "redis_get r now (url_key shortCode)")
  case None
  with assms show ?thesis
    by (auto simp: extendUrl_def split: if_splits)
next
  case (Some m)
  with assms(1) have "url_key shortCode = url_key (shortUrl m)"
    by (rule keyed_get)
  then have "shortUrl (m\<lparr>expiresAt := e\<rparr>) = shortCode" for e
    by simp
  with assms Some show ?thesis
    by (auto simp: extendUrl_def Let_def redis_set_ex_def keyed_del keyed_srem keyed_set
        split: if_splits)
qed

lemma keyed_getUrls:
  assumes "keyed r" and "getUrls r now page pageSize client = (res, r')"
  shows "keyed r'"
proof (cases "client = []")
  case True
  with assms show ?thesis
    by (simp add: getUrls_def)
next
  case False
  with assms(2) have "r' = snd (collect now client (redis_smembers r (user_key client)) [] r)"
    by (auto simp: getUrls_def Let_def split: prod.splits)
  with assms(1) show ?thesis
    by (simp add: keyed_collect)
qed

lemma reachable_keyed: "reachable r \<Longrightarrow> keyed r"
proof (induction rule: reachable.induct)
  case start
  show ?case by (rule keyed_empty)
next
  case (create r parses rnd clock now now2 url client res r')
  then show ?case by (blast intro: keyed_shortenUrl)
next
  case (resolve r now shortCode owner res1 r')
  then show ?case by (blast intro: keyed_lookupUrl)
next
  case (renew r now shortCode client res2 r')
  then show ?case by (blast intro: keyed_extendUrl)
next
  case (list r now page pageSize client res3 r')
  then show ?case by (blast intro: keyed_getUrls)
qed

lemma example_reachable: "reachable example_store"
  using reachable.start example_create by (rule reachable.create)

lemma example_retry:
  "retry (\<lambda>n. n) clock example_store (generateShortCode (\<lambda>n. n) 0) 5 0 =
     (if clock 0 < 172800500 then Some ''FGHIJ'' else Some ''ABCDE'')"
proof -
  have c1: "generateShortCode (\<lambda>n. n) 5 = ''FGHIJ''"
    by (simp add: generateShortCode_unfold charAt_def chars_def)
  have t: "redis_exists example_store (clock 0) (url_key ''ABCDE'') = (clock 0 < 172800500)"
    by (simp add: redis_exists_def example_get)
  have f: "\<not> redis_exists example_store (clock (0 + 1)) (url_key ''FGHIJ'')"
    by (simp add: redis_exists_def redis_get_def example_store_def url_key_def)
  show ?thesis
  proof (cases "clock 0 < 172800500")
    case True
    with t have "retry (\<lambda>n. n) clock example_store ''ABCDE'' 5 0 =
                   retry (\<lambda>n. n) clock example_store ''FGHIJ'' (5 + 5) (0 + 1)"
      using retry_taken [of example_store clock 0 "''ABCDE''" "\<lambda>n. n" 5] by (simp add: c1)
    with f True show ?thesis
      by (simp add: example_code retry_free)
  next
    case False
    with t show ?thesis
      by (simp add: example_code retry_free)
  qed
qed

subsection \<open>Stores that the operations reach\<close>

lemma bound_empty: "deadline_bound redis_empty 0"
  by (simp add: deadline_bound_def redis_empty_def)

lemma bound_mono: "deadline_bound r D \<Longrightarrow> D \<le> D' \<Longrightarrow> deadline_bound r D'"
  by (fastforce simp: deadline_bound_def)

lemma bound_del: "deadline_bound r D \<Longrightarrow> deadline_bound (redis_del r k) D"
  by (simp add: deadline_bound_def redis_del_def)

lemma bound_srem: "deadline_bound r D \<Longrightarrow> deadline_bound (redis_srem r k x) D"
  by (simp add: deadline_bound_def redis_srem_def)

lemma bound_sadd: "deadline_bound r D \<Longrightarrow> deadline_bound (redis_sadd r k x) D"
  by (simp add: deadline_bound_def redis_sadd_def)

lemma bound_set:
  "deadline_bound r D \<Longrightarrow> deadline_bound (r\<lparr>strs := (strs r)(k := Some (m, d))\<rparr>) (max D d)"
  by (fastforce simp: deadline_bound_def)

lemma bound_collect:
  "deadline_bound r D \<Longrightarrow> deadline_bound (snd (collect now client codes acc r)) D"
  by (induction codes arbitrary: acc r) (auto simp: bound_del bound_srem split: option.splits)

lemma bound_shortenUrl:
  assumes "deadline_bound r D"
    and "shortenUrl parses rnd clock now now2 r url client = Some (res, r')"
  shows "\<exists>D'. deadline_bound r' D'"
  using assms
  by (auto simp: shortenUrl_def Let_def redis_set_ex_def
      split: if_splits option.splits intro: bound_sadd bound_set)

lemma bound_lookupUrl:
  assumes "deadline_bound r D" and "lookupUrl r now shortCode owner = (res, r')"
  shows "\<exists>D'. deadline_bound r' D'"
  using assms
  by (auto simp: lookupUrl_def Let_def split: if_splits option.splits
      intro: bound_del bound_srem)

lemma bound_extendUrl:
  assumes "deadline_bound r D" and "extendUrl r now shortCode client = (res, r')"
  shows "\<exists>D'. deadline_bound r' D'"
  using assms
  by (auto simp: extendUrl_def Let_def redis_set_ex_def split: if_splits option.splits
      intro: bound_del bound_srem bound_set)

lemma bound_getUrls:
  assumes "deadline_bound r D" and "getUrls r now page pageSize client = (res, r')"
  shows "\<exists>D'. deadline_bound r' D'"
proof (cases "client = []")
  case True
  with assms show ?thesis
    by (auto simp: getUrls_def)
next
  case False
  with assms(2) have "r' = snd (collect now client (redis_smembers r (user_key client)) [] r)"
    by (auto simp: getUrls_def Let_def split: prod.splits)
  with assms(1) show ?thesis
    by (auto intro: bound_collect)
qed

lemma reachable_bounded: "reachable r \<Longrightarrow> \<exists>D. deadline_bound r D"
proof (induction rule: reachable.induct)
  case start
  show ?case using bound_empty by blast
next
  case (create r parses rnd clock now now2 url client res r')
  then show ?case by (blast intro: bound_shortenUrl)
next
  case (resolve r now shortCode owner res1 r')
  then show ?case by (blast intro: bound_lookupUrl)
next
  case (renew r now shortCode client res2 r')
  then show ?case by (blast intro: bound_extendUrl)
next
  case (list r now page pageSize client res3 r')
  then show ?case by (blast intro: bound_getUrls)
qed

lemma bound_free: "deadline_bound r D \<Longrightarrow> D \<le> t \<Longrightarrow> \<not> redis_exists r t k"
  by (fastforce simp: deadline_bound_def redis_exists_def redis_get_def
      split: option.splits if_splits)

lemma retry_returns:
  assumes "reachable r" and "\<forall>T. \<exists>k. T \<le> clock k"
  shows "\<exists>c. retry rnd clock r (generateShortCode rnd 0) 5 0 = Some c"
proof -
  from assms(1) obtain D where D: "deadline_bound r D"
    using reachable_bounded by blast
  from assms(2) obtain n where "D \<le> clock n"
    by blast
  with D have "\<not> redis_exists r (clock (0 + n)) (url_key (generateShortCode rnd (0 + 5 * n)))"
    by (simp add: bound_free)
  from retry_finds [of r clock 0 n rnd 0, OF this] show ?thesis
    by auto
qed

subsection \<open>Eleven collisions\<close>

lemma colliding_taken:
  assumes "j < 11"
  shows "generateShortCode colliding_rnd (5 * j) = ''ABCDE''"
proof -
  have r: "colliding_rnd (5 * j + m) = m" if "m < 5" for m
    using assms that by (simp add: colliding_rnd_def)
  have "colliding_rnd (5 * j) = 0"
    using r [of 0] by simp
  moreover have "colliding_rnd (5 * j + 1) = 1" "colliding_rnd (5 * j + 2) = 2"
    "colliding_rnd (5 * j + 3) = 3" "colliding_rnd (5 * j + 4) = 4"
    using r [of 1] r [of 2] r [of 3] r [of 4] by simp_all
  ultimately show ?thesis
    by (simp add: generateShortCode_unfold charAt_def chars_def)
qed

lemma colliding_free: "generateShortCode colliding_rnd 55 = ''FGHIJ''"
  by (simp add: generateShortCode_unfold colliding_rnd_def charAt_def chars_def)

lemma colliding_retry:
  "retry colliding_rnd (\<lambda>k. 1000 + int k) example_store
     (generateShortCode colliding_rnd 0) 5 0 = Some ''FGHIJ''"
proof -
  have f: "\<not> redis_exists example_store (1000 + int (0 + 11))
             (url_key (generateShortCode colliding_rnd (0 + 5 * 11)))"
    by (simp add: colliding_free redis_exists_def redis_get_def example_store_def url_key_def)
  have t: "redis_exists example_store (1000 + int (0 + j))
             (url_key (generateShortCode colliding_rnd (0 + 5 * j)))" if "j < 11" for j
    using that by (simp add: colliding_taken redis_exists_def example_get)
  from retry_first [of example_store "\<lambda>k. 1000 + int k" 0 11 colliding_rnd 0, OF f t]
  show ?thesis
    by (simp add: colliding_free)
qed

subsection \<open>Rejected input\<close>

text \<open>
  Claim C7. When the client id is empty or the long URL does not parse, \<^verbatim>\<open>shortenUrl\<close>
  throws "Client ID required" or "Invalid URL" (the spec's \<open>InvalidInput\<close>) and the
  store is exactly the one before the call: nothing was written, nothing was added to
  an index, and the result depends neither on the random values, none of which is
  drawn, nor on the instants of the checks of the loop, none of which is made.
\<close>

theorem shortenUrl_invalid_input:
  assumes "client = [] \<or> \<not> parses url"
  shows "shortenUrl parses rnd clock now now2 r url client =
           Some (Inl (if client = [] then ClientIdRequired else InvalidUrl), r)"
  using assms by (auto simp: shortenUrl_def)

text \<open>The spec's scenario \<^verbatim>\<open>longUrl = "not-a-url"\<close>, and a call without a client id.\<close>

theorem shortenUrl_invalid_input_witness:
  "(''owner1'' = [] \<or> \<not> example_parses ''not-a-url'')
   \<and> shortenUrl example_parses (\<lambda>n. n) (\<lambda>k. 0) 0 500 example_store ''not-a-url'' ''owner1'' =
       Some (Inl InvalidUrl, example_store)
   \<and> shortenUrl example_parses (\<lambda>n. n) (\<lambda>k. 0) 0 500 example_store ''https://example.com/a''
       [] =
       Some (Inl ClientIdRequired, example_store)"
proof -
  have h: "''owner1'' = [] \<or> \<not> example_parses ''not-a-url''"
    by (simp add: example_parses_def)
  have h': "([]::string) = [] \<or> \<not> example_parses ''https://example.com/a''"
    by simp
  show ?thesis
    using h
      shortenUrl_invalid_input [where client = "''owner1''" and parses = example_parses
        and url = "''not-a-url''" and rnd = "\<lambda>n. n" and clock = "\<lambda>k. 0" and now = 0
        and ?now2.0 = 500 and r = example_store, OF h]
      shortenUrl_invalid_input [where client = "[]" and parses = example_parses
        and url = "''https://example.com/a''" and rnd = "\<lambda>n. n" and clock = "\<lambda>k. 0"
        and now = 0 and ?now2.0 = 500 and r = example_store, OF h']
    by simp
qed

subsection \<open>Resolving\<close>

text \<open>
  Claim C2. For a mapping that the store holds, \<^verbatim>\<open>lookupUrl\<close> with a client id that
  is supplied (not empty) and is not the record's throws "Unauthorized access to URL",
  not "URL not found or expired", and leaves the store alone; without a client id it
  returns a live record whoever created it.
\<close>

theorem lookupUrl_owner_check:
  assumes "redis_get r now (url_key shortCode) = Some m"
  shows "(client \<noteq> [] \<and> client \<noteq> clientId m \<longrightarrow>
            lookupUrl r now shortCode (Some client) = (Inl Unauthorized, r))
         \<and> (now < expiresAt m \<longrightarrow> lookupUrl r now shortCode None = (Inr m, r))"
  using assms by (auto simp: lookupUrl_def)

theorem lookupUrl_owner_check_witness:
  "redis_get example_store 1000 (url_key ''ABCDE'') = Some example_mapping
   \<and> ''owner2'' \<noteq> [] \<and> ''owner2'' \<noteq> clientId example_mapping
   \<and> 1000 < expiresAt example_mapping
   \<and> lookupUrl example_store 1000 ''ABCDE'' (Some ''owner2'') = (Inl Unauthorized, example_store)
   \<and> lookupUrl example_store 1000 ''ABCDE'' None = (Inr example_mapping, example_store)"
proof -
  have h: "redis_get example_store 1000 (url_key ''ABCDE'') = Some example_mapping"
    by (simp add: example_get)
  have o: "''owner2'' \<noteq> [] \<and> ''owner2'' \<noteq> clientId example_mapping"
    and l: "1000 < expiresAt example_mapping"
    by (simp_all add: example_mapping_def)
  show ?thesis
    using h o l lookupUrl_owner_check [OF h, of "''owner2''"] by simp
qed

text \<open>
  Claim C10. \<^verbatim>\<open>lookupUrl\<close> with the empty string as client id is \<^verbatim>\<open>lookupUrl\<close>
  with no client id: the same result and the same store. It never throws
  "Unauthorized access to URL", it returns any live record, and on an expired record it
  deletes the record only: no index set changes.
\<close>

theorem lookupUrl_empty_owner:
  "lookupUrl r now shortCode (Some []) = lookupUrl r now shortCode None
   \<and> fst (lookupUrl r now shortCode (Some [])) \<noteq> Inl Unauthorized
   \<and> sets (snd (lookupUrl r now shortCode (Some []))) = sets r
   \<and> (case redis_get r now (url_key shortCode) of
        None \<Rightarrow> lookupUrl r now shortCode (Some []) = (Inl NotFoundOrExpired, r)
      | Some m \<Rightarrow>
          lookupUrl r now shortCode (Some []) =
            (if now < expiresAt m then (Inr m, r)
             else (Inl NotFoundOrExpired, redis_del r (url_key shortCode))))"
  by (auto simp: lookupUrl_def redis_del_def split: option.splits)

text \<open>
  Claim C4, as stated, fails: the ownership check comes before the expiry check, so a
  caller with another client id gets "Unauthorized access to URL" on an expired record,
  and the record stays. Here the record expired at 172800000 and the store still holds
  it at 172800100.
\<close>

theorem lookupUrl_expired_counterexample:
  "redis_get example_store 172800100 (url_key ''ABCDE'') = Some example_mapping
   \<and> expiresAt example_mapping \<le> 172800100
   \<and> lookupUrl example_store 172800100 ''ABCDE'' (Some ''owner2'') =
       (Inl Unauthorized, example_store)"
  by (simp add: lookupUrl_def example_get) (simp add: example_mapping_def)

text \<open>
  Claim C4, amended. For a mapping that the store holds and a caller that passes the
  ownership check (no client id, the empty one, or the record's own): when
  \<open>expiresAt \<le> now\<close>, \<^verbatim>\<open>lookupUrl\<close> deletes the record, removes the code from the
  caller's index set only if a client id was supplied, and throws "URL not found or
  expired"; any later \<^verbatim>\<open>lookupUrl\<close> of the code, by anyone, throws the same and
  changes nothing. When \<open>now < expiresAt\<close> the record is returned and the store is
  unchanged.
\<close>

theorem lookupUrl_expiry:
  assumes "redis_get r now (url_key shortCode) = Some m"
    and "\<not> (truthy client \<and> Some (clientId m) \<noteq> client)"
  shows "if expiresAt m \<le> now
         then (let r' = (if truthy client
                         then redis_srem (redis_del r (url_key shortCode))
                                (user_key (clientId m)) shortCode
                         else redis_del r (url_key shortCode))
               in lookupUrl r now shortCode client = (Inl NotFoundOrExpired, r')
                  \<and> lookupUrl r' later shortCode client' = (Inl NotFoundOrExpired, r'))
         else lookupUrl r now shortCode client = (Inr m, r)"
  using assms by (cases client) (auto simp: lookupUrl_def Let_def)

theorem lookupUrl_expiry_witness:
  "redis_get example_store 172800100 (url_key ''ABCDE'') = Some example_mapping
   \<and> \<not> (truthy (Some ''owner1'') \<and> Some (clientId example_mapping) \<noteq> Some ''owner1'')
   \<and> \<not> (truthy None \<and> Some (clientId example_mapping) \<noteq> None)
   \<and> lookupUrl example_store 172800100 ''ABCDE'' (Some ''owner1'') =
       (Inl NotFoundOrExpired, redis_empty)
   \<and> lookupUrl redis_empty 172800200 ''ABCDE'' (Some ''owner1'') =
       (Inl NotFoundOrExpired, redis_empty)
   \<and> lookupUrl example_store 172800100 ''ABCDE'' None =
       (Inl NotFoundOrExpired, example_store\<lparr>strs := (\<lambda>k. None)\<rparr>)
   \<and> sets (example_store\<lparr>strs := (\<lambda>k. None)\<rparr>) ''user:owner1:urls'' = [''ABCDE'']
   \<and> redis_get example_store 1000 (url_key ''ABCDE'') = Some example_mapping
   \<and> lookupUrl example_store 1000 ''ABCDE'' (Some ''owner1'') = (Inr example_mapping, example_store)"
proof -
  have h: "redis_get example_store 172800100 (url_key ''ABCDE'') = Some example_mapping"
    and h': "redis_get example_store 1000 (url_key ''ABCDE'') = Some example_mapping"
    by (simp_all add: example_get)
  have o: "\<not> (truthy (Some ''owner1'') \<and> Some (clientId example_mapping) \<noteq> Some ''owner1'')"
    and n: "\<not> (truthy None \<and> Some (clientId example_mapping) \<noteq> None)"
    by (simp_all add: example_mapping_def)
  have e: "expiresAt example_mapping \<le> 172800100" "\<not> expiresAt example_mapping \<le> 1000"
    and c: "clientId example_mapping = ''owner1''"
    by (simp_all add: example_mapping_def)
  have d: "redis_del example_store (url_key ''ABCDE'') = example_store\<lparr>strs := (\<lambda>k. None)\<rparr>"
    by (simp add: redis_del_def example_store_def url_key_def)
  have s: "redis_srem (example_store\<lparr>strs := (\<lambda>k. None)\<rparr>) (user_key ''owner1'') ''ABCDE'' = redis_empty"
    by (simp add: redis_srem_def example_store_def user_key_def redis_empty_def fun_eq_iff)
  show ?thesis
    using h h' o n
      lookupUrl_expiry [OF h o, of 172800200 "Some ''owner1''"]
      lookupUrl_expiry [OF h n]
      lookupUrl_expiry [OF h' o]
    by (simp add: e c d s Let_def) (simp add: example_store_def)
qed

subsection \<open>Creating\<close>

text \<open>
  Claim C1. For a URL that parses and a client id that is not empty, when the generator
  comes to a code whose key is absent at the instant of its check (the condition under
  which the loop of \<^verbatim>\<open>shortenUrl\<close> ends, see C9) and the second clock read is
  within the 48 hours,
  \<^verbatim>\<open>shortenUrl\<close> returns a code, and \<^verbatim>\<open>lookupUrl\<close> of that code with the same
  client id at any instant before the expiry returns the record, whose \<open>longUrl\<close> is
  the URL given, and leaves the store as it is.
\<close>

theorem create_resolve_roundtrip:
  assumes "parses url" and "client \<noteq> []"
    and "\<not> redis_exists r (clock n) (url_key (generateShortCode rnd (5 * n)))"
    and "now2 < now + 172800000"
    and "t < now + 172800000"
  shows "\<exists>code r'.
           shortenUrl parses rnd clock now now2 r url client = Some (Inr code, r')
           \<and> lookupUrl r' t code (Some client) =
               (Inr \<lparr>shortUrl = code, longUrl = url, createdAt = now,
                     expiresAt = now + 172800000, clientId = client\<rparr>, r')"
proof -
  from assms(3)
  have "\<not> redis_exists r (clock (0 + n)) (url_key (generateShortCode rnd (0 + 5 * n)))"
    by simp
  from retry_finds [of r clock 0 n rnd 0, OF this] obtain c
    where c: "retry rnd clock r (generateShortCode rnd 0) 5 0 = Some c"
    by auto
  let ?m = "\<lparr>shortUrl = c, longUrl = url, createdAt = now,
             expiresAt = now + 172800000, clientId = client\<rparr>"
  let ?d = "now2 + ceil_quot (now + 172800000 - now2) 1000 * 1000"
  let ?r' = "redis_sadd (r\<lparr>strs := (strs r)(url_key c := Some (?m, ?d))\<rparr>) (user_key client) c"
  have created: "shortenUrl parses rnd clock now now2 r url client = Some (Inr c, ?r')"
    using assms(2) assms(1) c assms(4) by (rule shortenUrl_created)
  have "now + 172800000 - now2 \<le> ceil_quot (now + 172800000 - now2) 1000 * 1000"
    by (rule ceil_quot_ge)
  with assms(5) have "t < ?d" by simp
  then have "redis_get ?r' t (url_key c) = Some ?m"
    by (simp add: redis_get_def redis_sadd_def)
  then have "lookupUrl ?r' t c (Some client) = (Inr ?m, ?r')"
    using assms(2) assms(5) by (simp add: lookupUrl_def)
  with created show ?thesis by blast
qed

theorem create_resolve_roundtrip_witness:
  "example_parses ''https://example.com/a'' \<and> ''owner1'' \<noteq> []
   \<and> \<not> redis_exists redis_empty 0 (url_key (generateShortCode (\<lambda>n. n) (5 * 0)))
   \<and> (500::int) < 0 + 172800000 \<and> (172799999::int) < 0 + 172800000
   \<and> shortenUrl example_parses (\<lambda>n. n) (\<lambda>k. 0) 0 500 redis_empty ''https://example.com/a''
       ''owner1'' =
       Some (Inr ''ABCDE'', example_store)
   \<and> lookupUrl example_store 172799999 ''ABCDE'' (Some ''owner1'') =
       (Inr example_mapping, example_store)"
proof -
  have p: "example_parses ''https://example.com/a''" and o: "''owner1'' \<noteq> []"
    by (simp_all add: example_parses_def)
  have f: "\<not> redis_exists redis_empty 0 (url_key (generateShortCode (\<lambda>n. n) (5 * 0)))"
    by (simp add: redis_exists_def redis_get_def redis_empty_def)
  have t: "(500::int) < 0 + 172800000" "(172799999::int) < 0 + 172800000"
    by simp_all
  from create_resolve_roundtrip [where parses = example_parses and client = "''owner1''"
      and r = redis_empty and rnd = "\<lambda>n. n" and clock = "\<lambda>k. 0" and n = 0 and now = 0
      and ?now2.0 = 500 and t = 172799999 and url = "''https://example.com/a''", OF p o f t]
  show ?thesis
    using p f by (simp add: example_create example_mapping_def)
qed

text \<open>
  Claim C9, as stated, fails: the loop has no bound on its retries and no error for
  exhausted retries. Here the generator spells \<^verbatim>\<open>ABCDE\<close>, which the example store
  holds, eleven times before it spells \<^verbatim>\<open>FGHIJ\<close>; the checks are made at the
  instants 1000 to 1011. After eleven collisions, more than the bound of 10 that the
  claim names, the call checks a twelfth candidate and returns it.
\<close>

theorem shortenUrl_eleven_retries_counterexample:
  "map (\<lambda>j. generateShortCode colliding_rnd (5 * j)) [0..<12] =
     [''ABCDE'', ''ABCDE'', ''ABCDE'', ''ABCDE'', ''ABCDE'', ''ABCDE'', ''ABCDE'', ''ABCDE'',
      ''ABCDE'', ''ABCDE'', ''ABCDE'', ''FGHIJ'']
   \<and> map (\<lambda>j. redis_exists example_store (1000 + int j)
                 (url_key (generateShortCode colliding_rnd (5 * j)))) [0..<12] =
     [True, True, True, True, True, True, True, True, True, True, True, False]
   \<and> shortenUrl example_parses colliding_rnd (\<lambda>k. 1000 + int k) 2000 2000 example_store
       ''https://example.com/b'' ''owner1'' =
       Some (Inr ''FGHIJ'',
         redis_sadd
           (example_store\<lparr>strs := (strs example_store)(url_key ''FGHIJ'' :=
              Some (\<lparr>shortUrl = ''FGHIJ'', longUrl = ''https://example.com/b'',
                      createdAt = 2000, expiresAt = 172802000, clientId = ''owner1''\<rparr>,
                    172802000))\<rparr>)
           (user_key ''owner1'') ''FGHIJ'')"
proof -
  have u: "[0..<12] = [0, 1, 2, 3, 4, 5, 6, 7, 8, 9, 10, 11::nat]"
    by (simp add: upt_rec)
  have codes: "map (\<lambda>j. generateShortCode colliding_rnd (5 * j)) [0..<12] =
     [''ABCDE'', ''ABCDE'', ''ABCDE'', ''ABCDE'', ''ABCDE'', ''ABCDE'', ''ABCDE'', ''ABCDE'',
      ''ABCDE'', ''ABCDE'', ''ABCDE'', ''FGHIJ'']"
    unfolding u
    by (simp add: generateShortCode_unfold colliding_rnd_def charAt_def chars_def)
  have a: "redis_exists example_store t (url_key ''ABCDE'') = (t < 172800500)" for t
    by (simp add: redis_exists_def example_get)
  have f: "\<not> redis_exists example_store t (url_key ''FGHIJ'')" for t
    by (simp add: redis_exists_def redis_get_def example_store_def url_key_def)
  have answers: "map (\<lambda>j. redis_exists example_store (1000 + int j)
                 (url_key (generateShortCode colliding_rnd (5 * j)))) [0..<12] =
     [True, True, True, True, True, True, True, True, True, True, True, False]"
    using codes unfolding u by (simp add: a f)
  have p: "example_parses ''https://example.com/b''"
    by (simp add: example_parses_def)
  have "shortenUrl example_parses colliding_rnd (\<lambda>k. 1000 + int k) 2000 2000 example_store
       ''https://example.com/b'' ''owner1'' =
       Some (Inr ''FGHIJ'',
         redis_sadd
           (example_store\<lparr>strs := (strs example_store)(url_key ''FGHIJ'' :=
              Some (\<lparr>shortUrl = ''FGHIJ'', longUrl = ''https://example.com/b'',
                      createdAt = 2000, expiresAt = 172802000, clientId = ''owner1''\<rparr>,
                    172802000))\<rparr>)
           (user_key ''owner1'') ''FGHIJ'')"
    using shortenUrl_created [where client = "''owner1''" and parses = example_parses
        and url = "''https://example.com/b''" and now = 2000 and ?now2.0 = 2000,
        OF _ p colliding_retry]
    by (simp add: ceil_quot_def)
  with codes answers show ?thesis
    by simp
qed

text \<open>
  Claim C9, amended. On a store that the four operations have built, and with checks
  whose instants pass every instant, \<^verbatim>\<open>shortenUrl\<close> returns for every input: every
  record was written with a time to live, so a check comes at which the candidate is
  absent. There is no bound on the retries and no error for exhausted retries: for
  valid input, when the candidates \<open>0\<close> to \<open>n - 1\<close> are taken at their checks and the
  \<open>n\<close>-th is absent at its check, for any \<open>n\<close>, the loop ends with the \<open>n\<close>-th candidate
  after \<open>n\<close> retries, and the call returns it (or the store's refusal of the
  \<^verbatim>\<open>SET\<close>).
\<close>

theorem shortenUrl_retries_until_free:
  "(reachable r \<and> (\<forall>T. \<exists>k. T \<le> clock k)
      \<longrightarrow> (\<exists>res r'. shortenUrl parses rnd clock now now2 r url client = Some (res, r')))
   \<and> (client \<noteq> [] \<and> parses url
        \<and> (\<forall>j<n. redis_exists r (clock j) (url_key (generateShortCode rnd (5 * j))))
        \<and> \<not> redis_exists r (clock n) (url_key (generateShortCode rnd (5 * n)))
      \<longrightarrow> retry rnd clock r (generateShortCode rnd 0) 5 0 = Some (generateShortCode rnd (5 * n))
          \<and> (\<exists>res r'. shortenUrl parses rnd clock now now2 r url client = Some (res, r')
                \<and> res \<in> {Inr (generateShortCode rnd (5 * n)), Inl ReplyError}))"
proof (intro conjI impI)
  assume a: "reachable r \<and> (\<forall>T. \<exists>k. T \<le> clock k)"
  then obtain c where "retry rnd clock r (generateShortCode rnd 0) 5 0 = Some c"
    using retry_returns [of r clock rnd] by blast
  then show "\<exists>res r'. shortenUrl parses rnd clock now now2 r url client = Some (res, r')"
    by (auto simp: shortenUrl_def Let_def redis_set_ex_def)
next
  assume a: "client \<noteq> [] \<and> parses url
        \<and> (\<forall>j<n. redis_exists r (clock j) (url_key (generateShortCode rnd (5 * j))))
        \<and> \<not> redis_exists r (clock n) (url_key (generateShortCode rnd (5 * n)))"
  then have "\<not> redis_exists r (clock (0 + n)) (url_key (generateShortCode rnd (0 + 5 * n)))"
    and "\<And>j. j < n \<Longrightarrow>
           redis_exists r (clock (0 + j)) (url_key (generateShortCode rnd (0 + 5 * j)))"
    by simp_all
  from retry_first [of r clock 0 n rnd 0, OF this]
  show first: "retry rnd clock r (generateShortCode rnd 0) 5 0 =
                 Some (generateShortCode rnd (5 * n))"
    by simp
  show "\<exists>res r'. shortenUrl parses rnd clock now now2 r url client = Some (res, r')
          \<and> res \<in> {Inr (generateShortCode rnd (5 * n)), Inl ReplyError}"
    using a first
    by (auto simp: shortenUrl_def Let_def redis_set_ex_def)
qed

theorem shortenUrl_retries_until_free_witness:
  "reachable example_store \<and> (\<forall>T. \<exists>k. T \<le> 1000 + int k)
   \<and> ''owner1'' \<noteq> [] \<and> example_parses ''https://example.com/b''
   \<and> redis_exists example_store (1000 + int 0) (url_key (generateShortCode (\<lambda>n. n) (5 * 0)))
   \<and> \<not> redis_exists example_store (1000 + int 1) (url_key (generateShortCode (\<lambda>n. n) (5 * 1)))
   \<and> retry (\<lambda>n. n) (\<lambda>k. 1000 + int k) example_store (generateShortCode (\<lambda>n. n) 0) 5 0 =
       Some ''FGHIJ''
   \<and> (\<exists>res r'. shortenUrl example_parses (\<lambda>n. n) (\<lambda>k. 1000 + int k) 2000 2000 example_store
                  ''https://example.com/b'' ''owner1'' = Some (res, r')
                \<and> res \<in> {Inr ''FGHIJ'', Inl ReplyError})"
proof -
  have o: "''owner1'' \<noteq> []" and p: "example_parses ''https://example.com/b''"
    by (simp_all add: example_parses_def)
  have u: "\<forall>T. \<exists>k. T \<le> 1000 + int k"
  proof
    fix T :: int
    have "T \<le> 1000 + int (nat T)" by simp
    then show "\<exists>k. T \<le> 1000 + int k" by blast
  qed
  have c0: "generateShortCode (\<lambda>n. n) 0 = ''ABCDE''"
    and c1: "generateShortCode (\<lambda>n. n) 5 = ''FGHIJ''"
    by (simp_all add: generateShortCode_unfold charAt_def chars_def)
  have t: "redis_exists example_store 1000 (url_key ''ABCDE'')"
    by (simp add: redis_exists_def example_get)
  have f: "\<not> redis_exists example_store 1001 (url_key ''FGHIJ'')"
    by (simp add: redis_exists_def redis_get_def example_store_def url_key_def)
  note inst = shortenUrl_retries_until_free [where client = "''owner1''"
      and parses = example_parses and url = "''https://example.com/b''" and rnd = "\<lambda>n. n"
      and clock = "\<lambda>k. 1000 + int k" and now = 2000 and ?now2.0 = 2000
      and r = example_store and n = 1]
  from inst [THEN conjunct2] o p t f
  have two: "retry (\<lambda>n. n) (\<lambda>k. 1000 + int k) example_store (generateShortCode (\<lambda>n. n) 0) 5 0 =
       Some ''FGHIJ''
     \<and> (\<exists>res r'. shortenUrl example_parses (\<lambda>n. n) (\<lambda>k. 1000 + int k) 2000 2000 example_store
                  ''https://example.com/b'' ''owner1'' = Some (res, r')
                \<and> res \<in> {Inr ''FGHIJ'', Inl ReplyError})"
    by (simp add: c0 c1)
  show ?thesis
    using example_reachable u o p t f two by (simp add: c0 c1)
qed

subsection \<open>Renewing\<close>

text \<open>
  Claim C3, as stated, fails in its second part: a fresh mapping expires 48 hours after
  its creation, so two renewals put \<open>expiresAt\<close> 144 hours after the creation time,
  not 96. Created at 0 and renewed at 1000 and at 2000, the record expires at
  518400000, and 96 hours are 345600000.
\<close>

theorem extendUrl_twice_counterexample:
  "shortenUrl example_parses (\<lambda>n. n) (\<lambda>k. 0) 0 500 redis_empty ''https://example.com/a''
     ''owner1'' =
     Some (Inr ''ABCDE'', example_store)
   \<and> createdAt example_mapping = 0
   \<and> redis_get
        (snd (extendUrl (snd (extendUrl example_store 1000 ''ABCDE'' ''owner1'')) 2000
               ''ABCDE'' ''owner1''))
        2000 (url_key ''ABCDE'') =
       Some (example_mapping\<lparr>expiresAt := 518400000\<rparr>)
   \<and> (518400000::int) \<noteq> 0 + 96 * 60 * 60 * 1000"
proof -
  have g: "redis_get example_store 1000 (url_key ''ABCDE'') = Some example_mapping"
    by (simp add: example_get)
  have m: "clientId example_mapping = ''owner1''" "expiresAt example_mapping = 172800000"
    "createdAt example_mapping = 0"
    by (simp_all add: example_mapping_def)
  let ?r1 = "snd (extendUrl example_store 1000 ''ABCDE'' ''owner1'')"
  have r1: "?r1 = example_store\<lparr>strs := (strs example_store)(url_key ''ABCDE'' :=
              Some (example_mapping\<lparr>expiresAt := 345600000\<rparr>, 345600000))\<rparr>"
    using extendUrl_live [OF g, of "''owner1''"] by (simp add: m ceil_quot_def)
  have g1: "redis_get ?r1 2000 (url_key ''ABCDE'') = Some (example_mapping\<lparr>expiresAt := 345600000\<rparr>)"
    unfolding r1 by (rule redis_get_set) simp
  have "snd (extendUrl ?r1 2000 ''ABCDE'' ''owner1'') =
          ?r1\<lparr>strs := (strs ?r1)(url_key ''ABCDE'' :=
              Some (example_mapping\<lparr>expiresAt := 518400000\<rparr>, 518400000))\<rparr>"
    using extendUrl_live [OF g1, of "''owner1''"] by (simp add: m ceil_quot_def)
  then have "redis_get (snd (extendUrl ?r1 2000 ''ABCDE'' ''owner1'')) 2000 (url_key ''ABCDE'') =
               Some (example_mapping\<lparr>expiresAt := 518400000\<rparr>)"
    by (simp add: redis_get_def)
  then show ?thesis
    by (simp add: example_create m)
qed

text \<open>
  Claim C3, amended. For a live mapping owned by the caller, \<^verbatim>\<open>extendUrl\<close> succeeds
  and rewrites the record with \<open>expiresAt\<close> exactly 48 hours after its prior value,
  whatever the current time, with a time to live of the new remaining lifetime in
  seconds, rounded up. Two renewals of a freshly created mapping, each before the
  expiry then in force, give an \<open>expiresAt\<close> 96 hours after the first expiry, which is
  144 hours after the creation time.
\<close>

theorem extendUrl_compounds:
  "(redis_get r now (url_key shortCode) = Some m \<and> clientId m = client \<and> client \<noteq> []
      \<and> now < expiresAt m
    \<longrightarrow> extendUrl r now shortCode client =
          (Inr True,
           r\<lparr>strs := (strs r)(url_key shortCode :=
                Some (m\<lparr>expiresAt := expiresAt m + 48 * 60 * 60 * 1000\<rparr>,
                      now + \<lceil>real_of_int (expiresAt m + 48 * 60 * 60 * 1000 - now) / 1000\<rceil> * 1000))\<rparr>))
   \<and> (shortenUrl parses rnd clock t0 t0' s url client = Some (Inr shortCode, s0)
        \<and> t1 < t0 + 48 * 60 * 60 * 1000 \<and> t2 < t0 + 96 * 60 * 60 * 1000
    \<longrightarrow> (\<exists>s1 s2. extendUrl s0 t1 shortCode client = (Inr True, s1)
           \<and> extendUrl s1 t2 shortCode client = (Inr True, s2)
           \<and> redis_get s1 t1 (url_key shortCode) =
               Some \<lparr>shortUrl = shortCode, longUrl = url, createdAt = t0,
                     expiresAt = t0 + 96 * 60 * 60 * 1000, clientId = client\<rparr>
           \<and> redis_get s2 t2 (url_key shortCode) =
               Some \<lparr>shortUrl = shortCode, longUrl = url, createdAt = t0,
                     expiresAt = t0 + 144 * 60 * 60 * 1000, clientId = client\<rparr>))"
proof (intro conjI impI)
  assume a: "redis_get r now (url_key shortCode) = Some m \<and> clientId m = client \<and> client \<noteq> []
      \<and> now < expiresAt m"
  have "ceil_quot (expiresAt m + 172800000 - now) 1000 =
          \<lceil>real_of_int (expiresAt m + 172800000 - now) / 1000\<rceil>"
    using ceil_quot_ceiling [of "expiresAt m + 172800000 - now" 1000] by simp
  with a extendUrl_live [of r now shortCode m client]
  show "extendUrl r now shortCode client =
          (Inr True,
           r\<lparr>strs := (strs r)(url_key shortCode :=
                Some (m\<lparr>expiresAt := expiresAt m + 48 * 60 * 60 * 1000\<rparr>,
                      now + \<lceil>real_of_int (expiresAt m + 48 * 60 * 60 * 1000 - now) / 1000\<rceil> * 1000))\<rparr>)"
    by simp
next
  assume a: "shortenUrl parses rnd clock t0 t0' s url client = Some (Inr shortCode, s0)
        \<and> t1 < t0 + 48 * 60 * 60 * 1000 \<and> t2 < t0 + 96 * 60 * 60 * 1000"
  show "\<exists>s1 s2. extendUrl s0 t1 shortCode client = (Inr True, s1)
           \<and> extendUrl s1 t2 shortCode client = (Inr True, s2)
           \<and> redis_get s1 t1 (url_key shortCode) =
               Some \<lparr>shortUrl = shortCode, longUrl = url, createdAt = t0,
                     expiresAt = t0 + 96 * 60 * 60 * 1000, clientId = client\<rparr>
           \<and> redis_get s2 t2 (url_key shortCode) =
               Some \<lparr>shortUrl = shortCode, longUrl = url, createdAt = t0,
                     expiresAt = t0 + 144 * 60 * 60 * 1000, clientId = client\<rparr>"
  proof -
    let ?m0 = "\<lparr>shortUrl = shortCode, longUrl = url, createdAt = t0,
                expiresAt = t0 + 172800000, clientId = client\<rparr>"
    let ?m1 = "?m0\<lparr>expiresAt := t0 + 345600000\<rparr>"
    let ?m2 = "?m0\<lparr>expiresAt := t0 + 518400000\<rparr>"
    let ?k = "url_key shortCode"
    let ?r' = "s\<lparr>strs := (strs s)(?k :=
                 Some (?m0, t0' + ceil_quot (t0 + 172800000 - t0') 1000 * 1000))\<rparr>"
    from a have t1: "t1 < t0 + 172800000" and t2: "t2 < t0 + 345600000"
      by simp_all
    from a shortenUrl_Inr [of parses rnd clock t0 t0' s url client shortCode s0]
    have c: "client \<noteq> []" and r0: "s0 = redis_sadd ?r' (user_key client) shortCode"
      by simp_all
    have "redis_get ?r' t1 ?k = Some ?m0"
      using t1 by (rule redis_get_fresh)
    then have g0: "redis_get s0 t1 ?k = Some ?m0"
      by (simp add: r0)
    let ?r1 = "s0\<lparr>strs := (strs s0)(?k :=
                 Some (?m1, t1 + ceil_quot (t0 + 345600000 - t1) 1000 * 1000))\<rparr>"
    have e1: "extendUrl s0 t1 shortCode client = (Inr True, ?r1)"
      using extendUrl_live [OF g0 _ c] t1 by (simp add: algebra_simps)
    have g1: "redis_get ?r1 t1 ?k = Some ?m1"
      using t1 by (intro redis_get_fresh) simp
    have g1': "redis_get ?r1 t2 ?k = Some ?m1"
      using t2 by (rule redis_get_fresh)
    let ?r2 = "?r1\<lparr>strs := (strs ?r1)(?k :=
                 Some (?m2, t2 + ceil_quot (t0 + 518400000 - t2) 1000 * 1000))\<rparr>"
    have e2: "extendUrl ?r1 t2 shortCode client = (Inr True, ?r2)"
      using extendUrl_live [OF g1' _ c] t2 by (simp add: algebra_simps)
    have g2: "redis_get ?r2 t2 ?k = Some ?m2"
      using t2 by (intro redis_get_fresh) simp
    from e1 e2 g1 g2 show ?thesis
      by simp
  qed
qed

theorem extendUrl_compounds_witness:
  "redis_get example_store 1000 (url_key ''ABCDE'') = Some example_mapping
   \<and> clientId example_mapping = ''owner1'' \<and> ''owner1'' \<noteq> []
   \<and> 1000 < expiresAt example_mapping
   \<and> shortenUrl example_parses (\<lambda>n. n) (\<lambda>k. 0) 0 500 redis_empty ''https://example.com/a''
       ''owner1'' =
       Some (Inr ''ABCDE'', example_store)
   \<and> (1000::int) < 0 + 48 * 60 * 60 * 1000 \<and> (2000::int) < 0 + 96 * 60 * 60 * 1000
   \<and> extendUrl example_store 1000 ''ABCDE'' ''owner1'' =
       (Inr True,
        example_store\<lparr>strs := (strs example_store)(url_key ''ABCDE'' :=
          Some (example_mapping\<lparr>expiresAt := 345600000\<rparr>, 345600000))\<rparr>)
   \<and> redis_get
        (snd (extendUrl (snd (extendUrl example_store 1000 ''ABCDE'' ''owner1'')) 2000
               ''ABCDE'' ''owner1''))
        2000 (url_key ''ABCDE'') =
       Some (example_mapping\<lparr>expiresAt := 144 * 60 * 60 * 1000\<rparr>)"
proof -
  have g: "redis_get example_store 1000 (url_key ''ABCDE'') = Some example_mapping"
    by (simp add: example_get)
  have m: "clientId example_mapping = ''owner1''" "expiresAt example_mapping = 172800000"
    by (simp_all add: example_mapping_def)
  note inst = extendUrl_compounds [where r = example_store and now = 1000
      and shortCode = "''ABCDE''" and m = example_mapping and client = "''owner1''"
      and parses = example_parses and rnd = "\<lambda>n. n" and clock = "\<lambda>k. 0" and ?t0.0 = 0
      and t0' = 500 and s = redis_empty and url = "''https://example.com/a''" and ?s0.0 = example_store
      and ?t1.0 = 1000 and ?t2.0 = 2000]
  from inst [THEN conjunct1] g m
  have one: "extendUrl example_store 1000 ''ABCDE'' ''owner1'' =
       (Inr True,
        example_store\<lparr>strs := (strs example_store)(url_key ''ABCDE'' :=
          Some (example_mapping\<lparr>expiresAt := 345600000\<rparr>, 345600000))\<rparr>)"
    by simp
  from inst [THEN conjunct2] example_create
  have two: "redis_get
        (snd (extendUrl (snd (extendUrl example_store 1000 ''ABCDE'' ''owner1'')) 2000
               ''ABCDE'' ''owner1''))
        2000 (url_key ''ABCDE'') =
       Some (example_mapping\<lparr>expiresAt := 144 * 60 * 60 * 1000\<rparr>)"
    by (auto simp: example_mapping_def)
  show ?thesis
    using g m one two example_create by simp
qed

subsection \<open>Listing\<close>

text \<open>
  Claim C5, where the code departs from it. A code of the index whose record is missing
  is passed over by the loop of \<^verbatim>\<open>getUrls\<close>: the clean-up sits inside
  \<^verbatim>\<open>if (data)\<close>. Once the time to live of the example record has ended (instant
  172800500), \<^verbatim>\<open>getUrls\<close> returns no record and the code \<^verbatim>\<open>ABCDE\<close> is still in
  the set of the owner: the store is returned as it was.
\<close>

theorem getUrls_keeps_dangling_code:
  "redis_smembers example_store (user_key ''owner1'') = [''ABCDE'']
   \<and> redis_get example_store 172800500 (url_key ''ABCDE'') = None
   \<and> getUrls example_store 172800500 1 10 ''owner1'' = (Inr ([], Num 1), example_store)"
  by (simp add: example_getUrls example_get example_members)

text \<open>
  Claim C6. For a client id that is not empty and integers \<open>page \<ge> 1\<close> and
  \<open>pageSize \<ge> 1\<close>, \<^verbatim>\<open>getUrls\<close> returns at most \<open>pageSize\<close> records;
  \<open>totalPages\<close> is the ceiling of the number of live records over \<open>pageSize\<close>, and at
  least 1; the records are those at the positions from \<open>(page - 1) * pageSize\<close> up to
  \<open>page * pageSize\<close> of the live records, newest first, cut at the end of the list;
  a page after \<open>totalPages\<close> is the empty list. No error is thrown.
\<close>

theorem getUrls_pagination:
  assumes "client \<noteq> []" and "1 \<le> page" and "1 \<le> pageSize"
  shows "\<exists>urls totalPages r'.
           getUrls r now page pageSize client = (Inr (urls, Num totalPages), r')
           \<and> (let live = newest_first
                            (fst (collect now client (redis_smembers r (user_key client)) [] r))
              in int (length urls) \<le> pageSize
                 \<and> totalPages = max 1 \<lceil>real (length live) / real_of_int pageSize\<rceil>
                 \<and> 1 \<le> totalPages
                 \<and> urls = take (nat pageSize) (drop (nat ((page - 1) * pageSize)) live)
                 \<and> (totalPages < page \<longrightarrow> urls = []))"
proof -
  obtain ms r1 where c: "collect now client (redis_smembers r (user_key client)) [] r = (ms, r1)"
    by (cases "collect now client (redis_smembers r (user_key client)) [] r")
  let ?live = "newest_first ms"
  let ?urls = "take (nat pageSize) (drop (nat ((page - 1) * pageSize)) ?live)"
  let ?tp = "max 1 (ceil_quot (int (length ?live)) pageSize)"
  have start: "0 \<le> (page - 1) * pageSize"
    using assms(2,3) by simp
  have slice: "js_slice ?live ((page - 1) * pageSize) ((page - 1) * pageSize + pageSize) = ?urls"
    using start assms(3) by (intro js_slice_page) simp_all
  have res: "getUrls r now page pageSize client = (Inr (?urls, Num ?tp), r1)"
    using assms(1,3) c slice by (simp add: getUrls_def Let_def math_ceil_div_def)
  have len: "int (length ?urls) \<le> pageSize"
    using assms(3) by simp
  have tp: "?tp = max 1 \<lceil>real (length ?live) / real_of_int pageSize\<rceil>"
    using ceil_quot_ceiling [of "int (length ?live)" pageSize] by simp
  have beyond: "?urls = []" if "?tp < page"
    using past_last_page [OF assms(3) that] by simp
  from res len tp beyond c show ?thesis
    by (simp add: Let_def)
qed

theorem getUrls_pagination_witness:
  "''owner1'' \<noteq> [] \<and> (1::int) \<le> 2 \<and> (1::int) \<le> 10
   \<and> getUrls example_store 1000 1 10 ''owner1'' = (Inr ([example_mapping], Num 1), example_store)
   \<and> getUrls example_store 1000 2 10 ''owner1'' = (Inr ([], Num 1), example_store)"
proof -
  have o: "''owner1'' \<noteq> []" by simp
  have live: "newest_first (fst (collect 1000 ''owner1''
                (redis_smembers example_store (user_key ''owner1'')) [] example_store))
              = [example_mapping]"
    by (simp add: example_collect newest_first_def)
  from getUrls_pagination [where client = "''owner1''" and page = 1 and pageSize = 10
      and r = example_store and now = 1000, OF o]
  obtain r1 where p1: "getUrls example_store 1000 1 10 ''owner1'' =
      (Inr ([example_mapping], Num 1), r1)"
    unfolding live by (auto simp: Let_def)
  from getUrls_pagination [where client = "''owner1''" and page = 2 and pageSize = 10
      and r = example_store and now = 1000, OF o]
  obtain r2 where p2: "getUrls example_store 1000 2 10 ''owner1'' = (Inr ([], Num 1), r2)"
    unfolding live by (auto simp: Let_def)
  have "snd (getUrls example_store 1000 1 10 ''owner1'') = example_store"
    and "snd (getUrls example_store 1000 2 10 ''owner1'') = example_store"
    by (simp_all add: example_getUrls)
  with p1 p2 show ?thesis
    by simp
qed

subsection \<open>Uniqueness of codes\<close>

text \<open>
  Claim C8. In every store that sequences of \<^verbatim>\<open>shortenUrl\<close>, \<^verbatim>\<open>lookupUrl\<close>,
  \<^verbatim>\<open>extendUrl\<close> and \<^verbatim>\<open>getUrls\<close> reach from the empty store, two records that the
  store holds at an instant (live ones among them) and that have the same short code sit
  under the same key and are the same record. \<^verbatim>\<open>shortenUrl\<close> returns a code only
  if it is a generated candidate and the check of its key answered that it is absent,
  and a key that is absent at its check is absent at every later instant, that of the
  write among them; it writes the record under that key and no other, and the store it
  leaves is reachable again.
\<close>

theorem short_code_unique:
  assumes "reachable r"
  shows "(redis_get r t k1 = Some m1 \<and> redis_get r t k2 = Some m2
            \<and> shortUrl m1 = shortUrl m2 \<longrightarrow> k1 = k2 \<and> m1 = m2)
         \<and> (shortenUrl parses rnd clock now now2 r url client = Some (Inr code, r') \<longrightarrow>
              (\<exists>n. code = generateShortCode rnd (5 * n)
                   \<and> \<not> redis_exists r (clock n) (url_key code)
                   \<and> (\<forall>t'. clock n \<le> t' \<longrightarrow> \<not> redis_exists r t' (url_key code)))
              \<and> (\<exists>d. strs r' (url_key code) =
                        Some (\<lparr>shortUrl = code, longUrl = url, createdAt = now,
                                expiresAt = now + 48 * 60 * 60 * 1000, clientId = client\<rparr>, d))
              \<and> (\<forall>k. k \<noteq> url_key code \<longrightarrow> strs r' k = strs r k)
              \<and> reachable r')"
proof (intro conjI impI)
  assume a: "redis_get r t k1 = Some m1 \<and> redis_get r t k2 = Some m2 \<and> shortUrl m1 = shortUrl m2"
  from assms have k: "keyed r" by (rule reachable_keyed)
  from a keyed_get [OF k] have "k1 = url_key (shortUrl m1)" and "k2 = url_key (shortUrl m2)"
    by blast+
  with a show "k1 = k2" by simp
  with a show "m1 = m2" by auto
next
  assume a: "shortenUrl parses rnd clock now now2 r url client = Some (Inr code, r')"
  note inv = shortenUrl_Inr [OF a]
  from inv have "retry rnd clock r (generateShortCode rnd 0) 5 0 = Some code"
    by simp
  from retry_start_Some [OF this] obtain n
    where n: "code = generateShortCode rnd (5 * n)"
      and absent: "\<not> redis_exists r (clock n) (url_key code)"
    by blast
  have "\<forall>t'. clock n \<le> t' \<longrightarrow> \<not> redis_exists r t' (url_key code)"
  proof (intro allI impI)
    fix t'
    assume "clock n \<le> t'"
    with absent show "\<not> redis_exists r t' (url_key code)"
      by (rule redis_exists_later)
  qed
  with n absent
  show "\<exists>n. code = generateShortCode rnd (5 * n)
           \<and> \<not> redis_exists r (clock n) (url_key code)
           \<and> (\<forall>t'. clock n \<le> t' \<longrightarrow> \<not> redis_exists r t' (url_key code))"
    by blast
  from inv show "\<exists>d. strs r' (url_key code) =
                        Some (\<lparr>shortUrl = code, longUrl = url, createdAt = now,
                                expiresAt = now + 48 * 60 * 60 * 1000, clientId = client\<rparr>, d)"
    by (simp add: redis_sadd_def)
  from inv show "\<forall>k. k \<noteq> url_key code \<longrightarrow> strs r' k = strs r k"
    by (simp add: redis_sadd_def)
  from assms a show "reachable r'"
    by (rule reachable.create)
qed

theorem short_code_unique_witness:
  "reachable example_store
   \<and> redis_get example_store 1000 (url_key ''ABCDE'') = Some example_mapping
   \<and> shortenUrl example_parses (\<lambda>n. n) (\<lambda>k. 0) 0 500 example_store ''https://example.com/b''
       ''owner1'' =
       Some (Inr ''FGHIJ'',
         redis_sadd
           (example_store\<lparr>strs := (strs example_store)(url_key ''FGHIJ'' :=
              Some (\<lparr>shortUrl = ''FGHIJ'', longUrl = ''https://example.com/b'', createdAt = 0,
                      expiresAt = 172800000, clientId = ''owner1''\<rparr>, 172800500))\<rparr>)
           (user_key ''owner1'') ''FGHIJ'')
   \<and> \<not> redis_exists example_store 0 (url_key ''FGHIJ'')
   \<and> reachable
        (redis_sadd
           (example_store\<lparr>strs := (strs example_store)(url_key ''FGHIJ'' :=
              Some (\<lparr>shortUrl = ''FGHIJ'', longUrl = ''https://example.com/b'', createdAt = 0,
                      expiresAt = 172800000, clientId = ''owner1''\<rparr>, 172800500))\<rparr>)
           (user_key ''owner1'') ''FGHIJ'')"
proof -
  have g: "redis_get example_store 1000 (url_key ''ABCDE'') = Some example_mapping"
    by (simp add: example_get)
  have p: "example_parses ''https://example.com/b''"
    by (simp add: example_parses_def)
  have er: "retry (\<lambda>n. n) (\<lambda>k. 0) example_store (generateShortCode (\<lambda>n. n) 0) 5 0 =
              Some ''FGHIJ''"
    by (simp add: example_retry)
  have f: "\<not> redis_exists example_store 0 (url_key ''FGHIJ'')"
    by (simp add: redis_exists_def redis_get_def example_store_def url_key_def)
  have c: "shortenUrl example_parses (\<lambda>n. n) (\<lambda>k. 0) 0 500 example_store ''https://example.com/b''
       ''owner1'' =
       Some (Inr ''FGHIJ'',
         redis_sadd
           (example_store\<lparr>strs := (strs example_store)(url_key ''FGHIJ'' :=
              Some (\<lparr>shortUrl = ''FGHIJ'', longUrl = ''https://example.com/b'', createdAt = 0,
                      expiresAt = 172800000, clientId = ''owner1''\<rparr>, 172800500))\<rparr>)
           (user_key ''owner1'') ''FGHIJ'')"
    using shortenUrl_created [where client = "''owner1''" and parses = example_parses
        and url = "''https://example.com/b''" and now = 0 and ?now2.0 = 500, OF _ p er]
    by (simp add: ceil_quot_def)
  from short_code_unique [OF example_reachable, where t = 1000 and ?k1.0 = "url_key ''ABCDE''"
      and ?k2.0 = "url_key ''ABCDE''" and ?m1.0 = example_mapping and ?m2.0 = example_mapping
      and parses = example_parses and rnd = "\<lambda>n. n" and clock = "\<lambda>k. 0" and now = 0
      and ?now2.0 = 500
      and url = "''https://example.com/b''" and client = "''owner1''" and code = "''FGHIJ''"
      and r' = "redis_sadd
           (example_store\<lparr>strs := (strs example_store)(url_key ''FGHIJ'' :=
              Some (\<lparr>shortUrl = ''FGHIJ'', longUrl = ''https://example.com/b'', createdAt = 0,
                      expiresAt = 172800000, clientId = ''owner1''\<rparr>, 172800500))\<rparr>)
           (user_key ''owner1'') ''FGHIJ''"]
  show ?thesis
    using example_reachable g c f by blast
qed

end
